theory Spec2Isabelle
  imports Complex_Main "HOL-Library.Word" "HOL-Library.List_Lexorder"
begin

section \<open>JavaScript strings\<close>

text \<open>
  A JavaScript string is a sequence of 16-bit code units. \<open>String.fromCharCode\<close>
  reduces its argument modulo \<open>2^16\<close>, which is the addition of \<open>16 word\<close>.
  Strings are compared code unit by code unit; the order on lists is the
  lexicographic one of \<open>List_Lexorder\<close>, over the unsigned order of the code units.
\<close>

type_synonym jschar = "16 word"
type_synonym jsstring = "jschar list"

definition js :: "string \<Rightarrow> jsstring" where
  "js s = map (\<lambda>c. of_nat (of_char c)) s"

text \<open>\<open>k.startsWith(p)\<close>: the first \<open>p.length\<close> code units of \<open>k\<close> are \<open>p\<close>.\<close>

definition startsWith :: "jsstring \<Rightarrow> jsstring \<Rightarrow> bool" where
  "startsWith k p = (take (length p) k = p)"

section \<open>The client module \<open>src/db/index.js\<close>\<close>

subsection \<open>Rows and the session cache\<close>

text \<open>
  The records the module caches are objects with an \<open>id\<close> property (\<open>id'\<close> here,
  \<open>id\<close> being the identity function of HOL) that the module itself assigns. A row
  read from the store also carries \<open>code\<close> (the document key) and the fields of the
  document (\<open>body\<close>).
\<close>

record row =
  id' :: "nat option"

record 'd ticketRow = row +
  code :: "jsstring option"
  body :: 'd

text \<open>
  An element of a cached array is a record, or (after the \<open>else\<close> branch of
  \<open>saveTicketsToMemory\<close>, which stores \<open>[data]\<close>) a whole array of records.
\<close>

datatype 'r item = Rec 'r | Arr "'r list"

text \<open>
  \<open>var cache = {shopTag: null, ticketData: [], prizeData: null, uid: null}\<close>.
  The code only tests the fields for truthiness, so \<open>null\<close> and \<open>undefined\<close> are both
  \<open>None\<close>; an array, also the empty one, is truthy.
\<close>

record ('t, 'p) cache =
  shopTag :: "jsstring option"
  ticketData :: "'t item list option"
  prizeData :: "'p item list option"
  uid :: "jsstring option"

definition initialCache :: "('t, 'p) cache" where
  "initialCache = \<lparr>shopTag = None, ticketData = Some [], prizeData = None, uid = None\<rparr>"

text \<open>
  The state of the client: the cache, and the log of the range scans (\<open>getDocs\<close> on a
  query) issued so far, each with its two bounds.
\<close>

record ('t, 'p) client =
  cache :: "('t, 'p) cache"
  scans :: "(jsstring \<times> jsstring) list"

text \<open>\<open>clearCachedData\<close>: \<open>cache = {}\<close>, every field becomes undefined.\<close>

definition clearCachedData :: "('t, 'p) client \<Rightarrow> ('t, 'p) client" where
  "clearCachedData c =
     c\<lparr>cache := \<lparr>shopTag = None, ticketData = None, prizeData = None, uid = None\<rparr>\<rparr>"

subsection \<open>The store\<close>

text \<open>
  A collection is a list of documents with their keys. \<open>docExists\<close> is the
  \<open>exists\<close> flag of a snapshot, \<open>setDoc\<close> the upsert \<open>doc(key).set(d)\<close>.
\<close>

type_synonym 'd collection = "(jsstring \<times> 'd) list"

definition docExists :: "'d collection \<Rightarrow> jsstring \<Rightarrow> bool" where
  "docExists coll k = (map_of coll k \<noteq> None)"

fun setDoc :: "jsstring \<Rightarrow> 'd \<Rightarrow> 'd collection \<Rightarrow> 'd collection" where
  "setDoc k d [] = [(k, d)]"
| "setDoc k d ((k', d') # rest) =
     (if k' = k then (k, d) # rest else (k', d') # setDoc k d rest)"

text \<open>
  Modelled from the spec: the range scan of the document store (Firestore's \<open>getDocs\<close>
  on \<open>where("__name__", ">=", start), where("__name__", "<", stop)\<close>), which is a
  library and not code of this repository. The spec's contract: the documents with
  \<open>start \<le> key < stop\<close>, ordered by key ascending.
\<close>

definition rangeScan :: "'d collection \<Rightarrow> jsstring \<Rightarrow> jsstring \<Rightarrow> 'd collection" where
  "rangeScan coll start stop =
     sort_key fst (filter (\<lambda>(k, d). start \<le> k \<and> k < stop) coll)"

subsection \<open>\<open>getTicketsByPrefix\<close>\<close>

text \<open>
  The bounds of the query. For the empty prefix \<open>head\<close> and \<open>tail\<close> are empty,
  \<open>tail.charCodeAt(0)\<close> is NaN and \<open>String.fromCharCode(NaN)\<close> is the code unit 0.
  \<open>slice(0, len-1)\<close> and \<open>slice(len-1, len)\<close> are \<open>take\<close> and \<open>drop\<close> of \<open>len - 1\<close>
  (for \<open>len = 0\<close> the negative index gives the empty string, as the truncated
  subtraction does).
\<close>

definition prefixBounds :: "jsstring \<Rightarrow> jsstring \<times> jsstring" where
  "prefixBounds prefix =
     (let len = length prefix;
          head = take (len - 1) prefix;
          tail = drop (len - 1) prefix;
          start = prefix;
          stop = head @ [case tail of [] \<Rightarrow> 0 | c # _ \<Rightarrow> c + 1]
      in (start, stop))"

text \<open>
  The \<open>snap.forEach\<close> callback: \<open>d.id = data.length + 1; d.code = doc.id;
  data.push(d)\<close>.
\<close>

fun forEachDoc :: "'d collection \<Rightarrow> 'd ticketRow list \<Rightarrow> 'd ticketRow list" where
  "forEachDoc [] data = data"
| "forEachDoc ((k, d) # snap) data =
     forEachDoc snap (data @ [\<lparr>id' = Some (length data + 1), code = Some k, body = d\<rparr>])"

text \<open>
  \<open>getTicketsByPrefix\<close>, against the collection \<open>ticket-info\<close> of the store. The
  result is the returned array together with the client state after the call.
\<close>

definition getTicketsByPrefix ::
  "jsstring \<Rightarrow> 'd collection \<Rightarrow> ('d ticketRow, 'p) client
     \<Rightarrow> 'd ticketRow item list \<times> ('d ticketRow, 'p) client" where
  "getTicketsByPrefix prefix ticketInfo c =
     (let (start, stop) = prefixBounds prefix in
      case ticketData (cache c) of
        Some (x # xs) \<Rightarrow> (x # xs, c)
      | _ \<Rightarrow>
         (let snap = rangeScan ticketInfo start stop;
              data = map Rec (forEachDoc snap [])
          in (data, c\<lparr>cache := (cache c)\<lparr>ticketData := Some data\<rparr>,
                       scans := scans c @ [(start, stop)]\<rparr>)))"

subsection \<open>\<open>saveTicketsToMemory\<close> and \<open>savePrizesToMemory\<close>\<close>

text \<open>
  The body of the \<open>for\<close> loop of both functions:
  \<open>data[i].id = cached.length + 1; cached = Array.prototype.concat(cached, data[i])\<close>.
  \<open>data[i]\<close> is a record, not an array, so \<open>concat\<close> appends it as one element.
\<close>

fun saveLoop :: "'a row_scheme list \<Rightarrow> 'a row_scheme item list \<Rightarrow> 'a row_scheme item list" where
  "saveLoop [] cached = cached"
| "saveLoop (r # data) cached =
     saveLoop data (cached @ [Rec (r\<lparr>id' := Some (length cached + 1)\<rparr>)])"

definition saveTicketsToMemory ::
  "'a row_scheme list \<Rightarrow> ('a row_scheme, 'p) client
     \<Rightarrow> 'a row_scheme item list \<times> ('a row_scheme, 'p) client" where
  "saveTicketsToMemory data c =
     (let td = (case ticketData (cache c) of
                  Some cached \<Rightarrow> saveLoop data cached
                | None \<Rightarrow> [Arr data])
      in (td, c\<lparr>cache := (cache c)\<lparr>ticketData := Some td\<rparr>\<rparr>))"

definition savePrizesToMemory ::
  "'b row_scheme list \<Rightarrow> ('t, 'b row_scheme) client
     \<Rightarrow> 'b row_scheme item list \<times> ('t, 'b row_scheme) client" where
  "savePrizesToMemory data c =
     (let pd = (case prizeData (cache c) of
                  Some cached \<Rightarrow> saveLoop data cached
                | None \<Rightarrow> [Arr data])
      in (pd, c\<lparr>cache := (cache c)\<lparr>prizeData := Some pd\<rparr>\<rparr>))"

section \<open>The cloud functions \<open>functions/src/index.ts\<close>\<close>

subsection \<open>Values, errors and documents\<close>

text \<open>
  A JavaScript number is NaN, an infinity or a finite double; comparisons of finite
  doubles are those of their exact rational values. \<open>js_lt\<close> is \<open><\<close> on numbers: false
  as soon as one side is NaN.
\<close>

datatype jsnum = NaN | Finite rat | PosInf | NegInf

fun js_lt :: "jsnum \<Rightarrow> jsnum \<Rightarrow> bool" where
  "js_lt (Finite a) (Finite b) = (a < b)"
| "js_lt (Finite a) PosInf = True"
| "js_lt NegInf (Finite b) = True"
| "js_lt NegInf PosInf = True"
| "js_lt _ _ = False"

text \<open>
  The values \<open>data.amount\<close> is modelled over, and their conversion to a number in a
  comparison with a number. (A string or an object is converted too, by parsing it;
  they are not part of the model.)
\<close>

datatype jsval = Undefined | Null | Boolean bool | Number jsnum

fun toNumber :: "jsval \<Rightarrow> jsnum" where
  "toNumber Undefined = NaN"
| "toNumber Null = Finite 0"
| "toNumber (Boolean b) = Finite (if b then 1 else 0)"
| "toNumber (Number n) = n"

text \<open>
  The codes of the \<open>HttpsError\<close>s the functions throw. A rejected promise of the
  store is not modelled: the reads and writes of the store succeed.
\<close>

datatype error = Unauthenticated | OutOfRange | Unknown

text \<open>
  The context of a callable function (\<open>context.auth?.uid\<close>), and the documents of the
  collections \<open>users\<close> and \<open>ticket-info\<close>. The e-mail and the memo of a ticket are passed
  through as they arrive, whatever their type \<open>'a\<close>. A variable of the source that has
  the name of a field carries a prime (\<open>email'\<close>, \<open>code'\<close>).
\<close>

record callableContext =
  auth :: "jsstring option"

record user =
  createdAt :: nat
  shopTag :: jsstring

record 'a ticket =
  createdAt :: nat
  email :: 'a
  memo :: 'a
  orderID :: "jsstring option"
  prizeID :: "jsstring option"
  redeemed :: bool
  shipped :: bool

record 'a firestore =
  users :: "user collection"
  ticketInfo :: "'a ticket collection"

definition checkAuthentication :: "callableContext \<Rightarrow> error option" where
  "checkAuthentication ctx = (if auth ctx = None then Some Unauthenticated else None)"

definition accountExists :: "jsstring \<Rightarrow> 'a firestore \<Rightarrow> bool" where
  "accountExists u st = docExists (users st) u"

subsection \<open>\<open>initUserAccount\<close> and \<open>userLoggedIn\<close>\<close>

text \<open>\<open>s.split(sep)\<close> for a separator of one code unit; the result is never empty.\<close>

fun split :: "jschar \<Rightarrow> jsstring \<Rightarrow> jsstring list" where
  "split sep [] = [[]]"
| "split sep (c # cs) =
     (if c = sep then [] # split sep cs
      else (case split sep cs of [] \<Rightarrow> [[c]] | w # ws \<Rightarrow> (c # w) # ws))"

text \<open>\<open>s.substring(a, b)\<close> for non-negative \<open>a\<close> and \<open>b\<close>: both are clamped to the length
  and swapped when \<open>a > b\<close>.\<close>

definition substring :: "jsstring \<Rightarrow> nat \<Rightarrow> nat \<Rightarrow> jsstring" where
  "substring s a b =
     (let a' = min a (length s); b' = min b (length s);
          lo = min a' b'; hi = max a' b'
      in take (hi - lo) (drop lo s))"

text \<open>
  Lines 121 to 123 of \<open>initUserAccount\<close>, the default shop tag. \<open>toLowerCase\<close>, the
  case mapping of the language (Unicode's, which can change the length of a string),
  is the parameter \<open>lower\<close>.
\<close>

definition defaultTag :: "(jsstring \<Rightarrow> jsstring) \<Rightarrow> jsstring \<Rightarrow> jsstring" where
  "defaultTag lower email' =
     (let emailPrefix = hd (split 0x40 email');
          numChars = (if length emailPrefix \<ge> 5 then 5 else length emailPrefix)
      in lower (substring emailPrefix 0 numChars))"

text \<open>
  \<open>initUserAccount\<close>; \<open>ts\<close> is the server timestamp of the write. The result is the
  returned boolean and the store after the call.
\<close>

definition initUserAccount ::
  "(jsstring \<Rightarrow> jsstring) \<Rightarrow> nat \<Rightarrow> jsstring \<Rightarrow> jsstring \<Rightarrow> 'a firestore
     \<Rightarrow> bool \<times> 'a firestore" where
  "initUserAccount lower ts u email' st =
     (if accountExists u st then (False, st)
      else
        (let userData = \<lparr>user.createdAt = ts, shopTag = defaultTag lower email'\<rparr>
         in (True, st\<lparr>users := setDoc u userData (users st)\<rparr>)))"

text \<open>
  \<open>userLoggedIn\<close>. The identity provider (\<open>admin.auth().getUser(uid)\<close>) is the function
  \<open>getUserEmail\<close>: it is taken to hold a record with an e-mail for every authenticated
  uid. The branch for a missing \<open>auth\<close> after \<open>checkAuthentication\<close> is never taken.
\<close>

definition userLoggedIn ::
  "(jsstring \<Rightarrow> jsstring) \<Rightarrow> nat \<Rightarrow> (jsstring \<Rightarrow> jsstring) \<Rightarrow> callableContext
     \<Rightarrow> 'a firestore \<Rightarrow> (error + string) \<times> 'a firestore" where
  "userLoggedIn lower ts getUserEmail ctx st =
     (case checkAuthentication ctx of
        Some e \<Rightarrow> (Inl e, st)
      | None \<Rightarrow>
         (case auth ctx of
            None \<Rightarrow> (Inl Unknown, st)
          | Some u \<Rightarrow>
             (let email' = getUserEmail u;
                  (newAccountCreated, st') = initUserAccount lower ts u email' st
              in if newAccountCreated then (Inr ''created'', st')
                 else (Inr ''success'', st'))))"

subsection \<open>\<open>generateTickets\<close>\<close>

text \<open>
  \<open>crypto.randomBytes(3)\<close> is a value of the environment: a call of \<open>generateTickets\<close>
  is given the list of the samples the generator returns one after the other. \<open>None\<close>
  is a run that has used up the list and is still in the \<open>while\<close> loop.
\<close>

type_synonym sample = "8 word \<times> 8 word \<times> 8 word"

text \<open>
  \<open>buf.toString("hex")\<close>: two lower-case digits for each byte. \<open>hexDigit\<close> is only
  applied to the two halves of a byte, which are below 16.
\<close>

definition hexDigit :: "nat \<Rightarrow> jschar" where
  "hexDigit n = js ''0123456789abcdef'' ! n"

definition toHex :: "sample \<Rightarrow> jsstring" where
  "toHex s = (case s of (b1, b2, b3) \<Rightarrow>
     concat (map (\<lambda>b. [hexDigit (unat b div 16), hexDigit (unat b mod 16)]) [b1, b2, b3]))"

text \<open>
  \<open>toUpperCase\<close>, here only applied to hexadecimal digits: the letters \<open>a\<close> to \<open>z\<close>
  become \<open>A\<close> to \<open>Z\<close>, any other code unit of the ASCII range stays.
\<close>

definition toUpperCase :: "jsstring \<Rightarrow> jsstring" where
  "toUpperCase s = map (\<lambda>c. if 0x61 \<le> c \<and> c \<le> 0x7A then c - 0x20 else c) s"

text \<open>The template \<open>`${shopTag}-${suffix}`\<close>.\<close>

definition buildCode :: "jsstring \<Rightarrow> jsstring \<Rightarrow> jsstring" where
  "buildCode tag suffix = tag @ js ''-'' @ suffix"

text \<open>
  Lines 176 to 183: sample a suffix, and sample again as long as the document
  \<open>/ticket-info/<code>\<close> exists. The result is the code and the samples left.
\<close>

fun generateCode :: "jsstring \<Rightarrow> 'd collection \<Rightarrow> sample list \<Rightarrow> (jsstring \<times> sample list) option" where
  "generateCode tag tinfo [] = None"
| "generateCode tag tinfo (s # rest) =
     (let suffix = toUpperCase (toHex s);
          code' = buildCode tag suffix
      in if docExists tinfo code' then generateCode tag tinfo rest else Some (code', rest))"

text \<open>
  The \<open>for\<close> loop of \<open>generateTickets\<close>: \<open>tickets\<close> is the object returned, \<open>tinfo\<close> the
  collection \<open>ticket-info\<close>. The write is taken to be in the store before the next
  existence check reads it.
\<close>

function issueLoop ::
  "nat \<Rightarrow> jsnum \<Rightarrow> jsstring \<Rightarrow> 'a ticket \<Rightarrow> sample list \<Rightarrow> 'a ticket collection
     \<Rightarrow> 'a ticket collection \<Rightarrow> ('a ticket collection \<times> 'a ticket collection) option" where
  "issueLoop i amount tag ticketData' samples tickets tinfo =
     (if js_lt (Finite (of_nat i)) amount then
        (case generateCode tag tinfo samples of
           None \<Rightarrow> None
         | Some (code', rest) \<Rightarrow>
             issueLoop (i + 1) amount tag ticketData' rest
               (setDoc code' ticketData' tickets) (setDoc code' ticketData' tinfo))
      else Some (tickets, tinfo))"
  by pat_completeness auto
termination
proof (relation "measure (\<lambda>(i, amount, tag, ticketData', samples, tickets, tinfo). length samples)")
  show "wf (measure (\<lambda>(i, amount, tag, ticketData' :: 'a ticket, samples, tickets :: 'a ticket collection,
                        tinfo :: 'a ticket collection). length samples))"
    by simp
next
  fix i :: nat and amount :: jsnum and tag :: jsstring and ticketData' :: "'a ticket"
    and samples rest :: "sample list" and tickets tinfo :: "'a ticket collection"
    and x2 and code' :: jsstring
  assume "generateCode tag tinfo samples = Some x2" and "(code', rest) = x2"
  then have gen: "generateCode tag tinfo samples = Some (code', rest)"
    by simp
  have "generateCode tag tinfo xs = Some (code', rest) \<Longrightarrow> length rest < length xs" for xs
    by (induction xs) (auto simp: Let_def split: if_splits)
  from this [OF gen]
  show "((i + 1, amount, tag, ticketData', rest, setDoc code' ticketData' tickets,
          setDoc code' ticketData' tinfo),
         (i, amount, tag, ticketData', samples, tickets, tinfo))
        \<in> measure (\<lambda>(i, amount, tag, ticketData', samples, tickets, tinfo). length samples)"
    by simp
qed

text \<open>
  \<open>generateTickets\<close>, with the fields \<open>email\<close>, \<open>memo\<close> and \<open>amount\<close> of \<open>data\<close>; \<open>ts\<close> is
  the server timestamp of the batch. The result is the error thrown or the mapping
  returned (in the order of insertion), together with the store after the call. A
  missing user document makes \<open>snapshot.data()\<close> undefined, and the \<open>catch\<close> handler
  turns the failure into \<open>unknown\<close>.
\<close>

definition generateTickets ::
  "nat \<Rightarrow> sample list \<Rightarrow> callableContext \<Rightarrow> 'a \<Rightarrow> 'a \<Rightarrow> jsval \<Rightarrow> 'a firestore
     \<Rightarrow> ((error + 'a ticket collection) \<times> 'a firestore) option" where
  "generateTickets ts samples ctx email' memo' amount st =
     (case checkAuthentication ctx of
        Some e \<Rightarrow> Some (Inl e, st)
      | None \<Rightarrow>
         if js_lt (Finite 10) (toNumber amount) \<or> js_lt (toNumber amount) (Finite 1)
         then Some (Inl OutOfRange, st)
         else
           (case (case auth ctx of None \<Rightarrow> None | Some u \<Rightarrow> map_of (users st) u) of
              None \<Rightarrow> Some (Inl Unknown, st)
            | Some userDoc \<Rightarrow>
               (let ticketData' = \<lparr>ticket.createdAt = ts, email = email', memo = memo',
                                  orderID = None, prizeID = None,
                                  redeemed = False, shipped = False\<rparr>
                in case issueLoop 0 (toNumber amount) (shopTag userDoc) ticketData' samples []
                          (ticketInfo st) of
                     None \<Rightarrow> None
                   | Some (tickets, tinfo) \<Rightarrow> Some (Inr tickets, st\<lparr>ticketInfo := tinfo\<rparr>))))"

text \<open>
  An instance of the parameter \<open>lower\<close> for e-mails of ASCII characters, where
  \<open>toLowerCase\<close> maps \<open>A\<close> to \<open>Z\<close> to \<open>a\<close> to \<open>z\<close> and nothing else.
\<close>

definition asciiLower :: "jsstring \<Rightarrow> jsstring" where
  "asciiLower s = map (\<lambda>c. if 0x41 \<le> c \<and> c \<le> 0x5A then c + 0x20 else c) s"

text \<open>
  \<open>toLowerCase\<close> of the language on the code units it is needed for here: the ASCII
  letters, and U+0130 (capital I with dot above), whose lower case in Unicode's
  special casing is the two code units U+0069 U+0307, so that the result is longer
  than the argument. Any other code unit is left as it is; the case mapping of the
  rest of Unicode is not modelled.
\<close>

definition toLowerCase :: "jsstring \<Rightarrow> jsstring" where
  "toLowerCase s =
     concat (map (\<lambda>c. if 0x41 \<le> c \<and> c \<le> 0x5A then [c + 0x20]
                      else if c = 0x130 then [0x69, 0x307] else [c]) s)"

text \<open>The pattern \<open>^<tag>-[0-9A-F]{6}$\<close> of a ticket code, for a given shop tag.\<close>

definition matchesCode :: "jsstring \<Rightarrow> jsstring \<Rightarrow> bool" where
  "matchesCode tag c =
     (take (length tag + 1) c = tag @ js ''-'' \<and>
      length (drop (length tag + 1) c) = 6 \<and>
      list_all (\<lambda>x. x \<in> set (js ''0123456789ABCDEF'')) (drop (length tag + 1) c))"

section \<open>Properties of the client module\<close>

subsection \<open>The range of a prefix\<close>

lemma succ_nonzero: "c \<noteq> (0xFFFF :: jschar) \<Longrightarrow> c + 1 \<noteq> 0"
proof -
  have "(0xFFFF :: jschar) = - 1"
    by simp
  then show "c \<noteq> 0xFFFF \<Longrightarrow> c + 1 \<noteq> 0"
    by (simp add: add_eq_0_iff2)
qed

lemma word_between:
  assumes "c \<noteq> (0xFFFF :: jschar)"
  shows "(c \<le> a \<and> a < c + 1) = (a = c)"
proof -
  from assms have "1 + c \<noteq> 0"
    using succ_nonzero [of c] by (simp add: add.commute)
  then have "unat (1 + c) = Suc (unat c)"
    by (rule unatSuc)
  then have u: "unat (c + 1) = Suc (unat c)"
    by (simp add: add.commute)
  show ?thesis
    unfolding word_less_nat_alt word_le_nat_alt u word_unat_eq_iff by auto
qed

lemma range_is_prefix:
  "c \<noteq> (0xFFFF :: jschar) \<Longrightarrow>
     (h @ [c] \<le> k \<and> k < h @ [c + 1]) = (take (Suc (length h)) k = h @ [c])"
proof (induction h arbitrary: k)
  case Nil
  show ?case
  proof (cases k)
    case Nil
    then show ?thesis by simp
  next
    case (Cons a r)
    have "(c < a \<or> c = a) = (c \<le> a)" by auto
    then show ?thesis
      using word_between [OF Nil.prems, of a] Cons by simp
  qed
next
  case (Cons a h)
  show ?case
  proof (cases k)
    case Nil
    then show ?thesis by simp
  next
    case (Cons b r)
    show ?thesis
      using Cons.IH [OF Cons.prems, of r] unfolding Cons
      by (simp only: append_Cons Cons_le_Cons Cons_less_Cons take_Suc_Cons length_Cons
            list.inject) auto
  qed
qed

lemma prefixBounds_nonempty:
  "prefix \<noteq> [] \<Longrightarrow> prefixBounds prefix = (prefix, butlast prefix @ [last prefix + 1])"
proof (induction prefix rule: rev_induct)
  case Nil
  then show ?case by simp
next
  case (snoc c h)
  show ?case by (simp add: prefixBounds_def)
qed

lemma rangeScan_prefix:
  assumes "prefix \<noteq> []" and "last prefix \<noteq> 0xFFFF"
  shows "rangeScan coll prefix (butlast prefix @ [last prefix + 1]) =
           sort_key fst (filter (\<lambda>(k, d). startsWith k prefix) coll)"
proof -
  obtain h c where p: "prefix = h @ [c]"
    using assms(1) by (cases prefix rule: rev_cases) auto
  with assms(2) have c: "c \<noteq> 0xFFFF" by simp
  have "(\<lambda>(k, d :: 'a). h @ [c] \<le> k \<and> k < h @ [c + 1]) = (\<lambda>(k, d). startsWith k (h @ [c]))"
    by (simp add: fun_eq_iff range_is_prefix [OF c] startsWith_def)
  then show ?thesis
    by (simp add: rangeScan_def p)
qed

lemma forEachDoc_enumerate:
  "forEachDoc snap data =
     data @ map (\<lambda>(i, k, d). \<lparr>id' = Some (i + 1), code = Some k, body = d\<rparr>)
              (enumerate (length data) snap)"
  by (induction snap data rule: forEachDoc.induct) auto

text \<open>
  C1. On an empty or unset cached ticket list, for a non-empty prefix whose last code
  unit is not the largest one (\<open>0xFFFF\<close>): the bounds are the prefix and the prefix with
  its last code unit incremented, the scan issued has these bounds, and the call returns
  the documents whose keys start with the prefix, in ascending key order, numbered from
  1 and tagged with their keys.
\<close>

theorem getTicketsByPrefix_cold:
  assumes "prefix \<noteq> []" and "last prefix \<noteq> 0xFFFF"
    and "ticketData (cache c) = None \<or> ticketData (cache c) = Some []"
  shows "prefixBounds prefix = (prefix, butlast prefix @ [last prefix + 1]) \<and>
         fst (getTicketsByPrefix prefix coll c) =
           map (\<lambda>(i, k, d). Rec \<lparr>id' = Some (i + 1), code = Some k, body = d\<rparr>)
             (enumerate 0 (sort_key fst (filter (\<lambda>(k, d). startsWith k prefix) coll))) \<and>
         scans (snd (getTicketsByPrefix prefix coll c)) =
           scans c @ [(prefix, butlast prefix @ [last prefix + 1])]"
proof -
  note b = prefixBounds_nonempty [OF assms(1)]
  note r = rangeScan_prefix [OF assms(1,2)]
  from assms(3) show ?thesis
    by (auto simp: getTicketsByPrefix_def b r forEachDoc_enumerate split_def Let_def comp_def)
qed

theorem getTicketsByPrefix_cold_witness:
  "js ''abc'' \<noteq> [] \<and> last (js ''abc'') \<noteq> 0xFFFF \<and>
   ticketData (cache (\<lparr>cache = initialCache, scans = []\<rparr>
       :: (string ticketRow, unit) client)) = Some [] \<and>
   prefixBounds (js ''abc'') = (js ''abc'', js ''abd'') \<and>
   fst (getTicketsByPrefix (js ''abc'')
          [(js ''abd-333'', ''c''), (js ''abc-222'', ''b''), (js ''abc-111'', ''a'')]
          (\<lparr>cache = initialCache, scans = []\<rparr> :: (string ticketRow, unit) client)) =
     [Rec \<lparr>id' = Some 1, code = Some (js ''abc-111''), body = ''a''\<rparr>,
      Rec \<lparr>id' = Some 2, code = Some (js ''abc-222''), body = ''b''\<rparr>]"
proof -
  let ?c = "\<lparr>cache = initialCache, scans = []\<rparr> :: (string ticketRow, unit) client"
  let ?coll = "[(js ''abd-333'', ''c''), (js ''abc-222'', ''b''), (js ''abc-111'', ''a'')]"
  have h1: "js ''abc'' \<noteq> []" and h2: "last (js ''abc'') \<noteq> 0xFFFF"
    by (simp_all add: js_def)
  have h3: "ticketData (cache ?c) = None \<or> ticketData (cache ?c) = Some []"
    by (simp add: initialCache_def)
  have b: "(js ''abc'', butlast (js ''abc'') @ [last (js ''abc'') + 1]) = (js ''abc'', js ''abd'')"
    by (simp add: js_def)
  have e: "map (\<lambda>(i, k, d). Rec \<lparr>id' = Some (i + 1), code = Some k, body = d\<rparr>)
             (enumerate 0 (sort_key fst (filter (\<lambda>(k, d). startsWith k (js ''abc'')) ?coll))) =
           [Rec \<lparr>id' = Some 1, code = Some (js ''abc-111''), body = ''a''\<rparr>,
            Rec \<lparr>id' = Some 2, code = Some (js ''abc-222''), body = ''b''\<rparr>]"
    by code_simp
  note t = getTicketsByPrefix_cold [OF h1 h2 h3, of ?coll]
  from t have "fst (getTicketsByPrefix (js ''abc'') ?coll ?c) =
      map (\<lambda>(i, k, d). Rec \<lparr>id' = Some (i + 1), code = Some k, body = d\<rparr>)
        (enumerate 0 (sort_key fst (filter (\<lambda>(k, d). startsWith k (js ''abc'')) ?coll)))"
    by blast
  then have r: "fst (getTicketsByPrefix (js ''abc'') ?coll ?c) =
      [Rec \<lparr>id' = Some 1, code = Some (js ''abc-111''), body = ''a''\<rparr>,
       Rec \<lparr>id' = Some 2, code = Some (js ''abc-222''), body = ''b''\<rparr>]"
    by (simp only: e)
  from t have "prefixBounds (js ''abc'') =
      (js ''abc'', butlast (js ''abc'') @ [last (js ''abc'') + 1])"
    by blast
  then have pb: "prefixBounds (js ''abc'') = (js ''abc'', js ''abd'')"
    by (simp only: b)
  have "ticketData (cache ?c) = Some []"
    by (simp add: initialCache_def)
  with h1 h2 r pb show ?thesis
    by blast
qed

subsection \<open>The cached ticket list\<close>

lemma getTicketsByPrefix_cached:
  "getTicketsByPrefix p coll c = (r, c') \<Longrightarrow> r \<noteq> [] \<Longrightarrow>
     ticketData (cache c') = Some r"
  by (auto simp: getTicketsByPrefix_def Let_def split_def split: option.splits list.splits)

lemma getTicketsByPrefix_warm:
  "ticketData (cache c) = Some r \<Longrightarrow> r \<noteq> [] \<Longrightarrow> getTicketsByPrefix p coll c = (r, c)"
  by (cases r) (simp_all add: getTicketsByPrefix_def split_def)

lemma getTicketsByPrefix_cleared:
  "scans (snd (getTicketsByPrefix p coll (clearCachedData c))) = scans c @ [prefixBounds p]"
  by (simp add: getTicketsByPrefix_def clearCachedData_def split_def Let_def)

text \<open>
  C3. Once a call of \<open>getTicketsByPrefix\<close> has returned a non-empty list \<open>r\<close> (which it has
  then cached), a second call with the same prefix returns \<open>r\<close> and leaves the client
  state as it is, the log of range scans included, whatever the store holds by then;
  after \<open>clearCachedData\<close> the next call issues one more range scan, with the bounds of
  the prefix.
\<close>

theorem cache_round_trip:
  assumes "getTicketsByPrefix prefix coll c = (r, c')" and "r \<noteq> []"
  shows "getTicketsByPrefix prefix coll2 c' = (r, c') \<and>
         scans (snd (getTicketsByPrefix prefix coll3 (clearCachedData c'))) =
           scans c' @ [prefixBounds prefix]"
proof -
  have "ticketData (cache c') = Some r"
    using assms by (rule getTicketsByPrefix_cached)
  then have "getTicketsByPrefix prefix coll2 c' = (r, c')"
    using assms(2) by (rule getTicketsByPrefix_warm)
  then show ?thesis
    by (simp add: getTicketsByPrefix_cleared)
qed

theorem cache_round_trip_witness:
  "(let c0 = \<lparr>cache = initialCache, scans = []\<rparr> :: (string ticketRow, unit) client;
        coll = [(js ''abd-333'', ''c''), (js ''abc-222'', ''b''), (js ''abc-111'', ''a'')];
        (r, c1) = getTicketsByPrefix (js ''abc'') coll c0
    in r \<noteq> [] \<and> length (scans c1) = 1 \<and>
       getTicketsByPrefix (js ''abc'') coll c1 = (r, c1) \<and>
       length (scans (snd (getTicketsByPrefix (js ''abc'') coll (clearCachedData c1)))) = 2)"
proof -
  let ?c0 = "\<lparr>cache = initialCache, scans = []\<rparr> :: (string ticketRow, unit) client"
  let ?coll = "[(js ''abd-333'', ''c''), (js ''abc-222'', ''b''), (js ''abc-111'', ''a'')]"
  obtain r c1 where g: "getTicketsByPrefix (js ''abc'') ?coll ?c0 = (r, c1)"
    by (cases "getTicketsByPrefix (js ''abc'') ?coll ?c0") 
  have "fst (getTicketsByPrefix (js ''abc'') ?coll ?c0) \<noteq> []"
    by code_simp
  with g have r: "r \<noteq> []" by simp
  have "length (scans (snd (getTicketsByPrefix (js ''abc'') ?coll ?c0))) = 1"
    by (simp add: getTicketsByPrefix_def initialCache_def split_def Let_def)
  with g have s: "length (scans c1) = 1" by simp
  from cache_round_trip [OF g r, of ?coll ?coll] s r g show ?thesis
    by (simp add: Let_def)
qed

text \<open>
  C9. The cached list is not keyed by the prefix: once a call for \<open>p1\<close> has returned a
  non-empty list, a call for any prefix \<open>p2\<close> returns that list and issues no range
  scan.
\<close>

theorem cache_ignores_prefix:
  assumes "getTicketsByPrefix p1 coll c = (r, c')" and "r \<noteq> []"
  shows "getTicketsByPrefix p2 coll2 c' = (r, c')"
  by (rule getTicketsByPrefix_warm [OF getTicketsByPrefix_cached [OF assms] assms(2)])


theorem cache_ignores_prefix_witness:
  "(let c0 = \<lparr>cache = initialCache, scans = []\<rparr> :: (string ticketRow, unit) client;
        coll = [(js ''abd-333'', ''c''), (js ''abc-222'', ''b''), (js ''abc-111'', ''a'')];
        (r, c1) = getTicketsByPrefix (js ''abc'') coll c0
    in r = [Rec \<lparr>id' = Some 1, code = Some (js ''abc-111''), body = ''a''\<rparr>,
            Rec \<lparr>id' = Some 2, code = Some (js ''abc-222''), body = ''b''\<rparr>] \<and>
       getTicketsByPrefix (js ''abd'') coll c1 = (r, c1))"
proof -
  let ?c0 = "\<lparr>cache = initialCache, scans = []\<rparr> :: (string ticketRow, unit) client"
  let ?coll = "[(js ''abd-333'', ''c''), (js ''abc-222'', ''b''), (js ''abc-111'', ''a'')]"
  obtain r c1 where g: "getTicketsByPrefix (js ''abc'') ?coll ?c0 = (r, c1)"
    by (cases "getTicketsByPrefix (js ''abc'') ?coll ?c0")
  have "fst (getTicketsByPrefix (js ''abc'') ?coll ?c0) =
          [Rec \<lparr>id' = Some 1, code = Some (js ''abc-111''), body = ''a''\<rparr>,
           Rec \<lparr>id' = Some 2, code = Some (js ''abc-222''), body = ''b''\<rparr>]"
    by code_simp
  with g have r: "r = [Rec \<lparr>id' = Some 1, code = Some (js ''abc-111''), body = ''a''\<rparr>,
                       Rec \<lparr>id' = Some 2, code = Some (js ''abc-222''), body = ''b''\<rparr>]"
    by simp
  then have "r \<noteq> []"
    by simp
  from cache_ignores_prefix [OF g this, of "js ''abd''" ?coll] r g show ?thesis
    by (simp add: Let_def)
qed

subsection \<open>\<open>saveTicketsToMemory\<close> and \<open>savePrizesToMemory\<close>\<close>

lemma saveLoop_enumerate:
  "saveLoop data cached =
     cached @ map (\<lambda>(i, r). Rec (r\<lparr>id' := Some (i + 1)\<rparr>)) (enumerate (length cached) data)"
  by (induction data arbitrary: cached) auto

text \<open>
  On a cached sequence that is set (an array, also the empty one), both functions append
  the new records, the record at index \<open>i\<close> with the id \<open>length cached + i + 1\<close>, and
  return the sequence they have cached.
\<close>

lemma saveTicketsToMemory_set:
  "ticketData (cache c) = Some cached \<Longrightarrow>
     saveTicketsToMemory data c =
       (let td = cached @ map (\<lambda>(i, r). Rec (r\<lparr>id' := Some (i + 1)\<rparr>))
                            (enumerate (length cached) data)
        in (td, c\<lparr>cache := (cache c)\<lparr>ticketData := Some td\<rparr>\<rparr>))"
  by (simp add: saveTicketsToMemory_def saveLoop_enumerate)

lemma savePrizesToMemory_set:
  "prizeData (cache c) = Some cached \<Longrightarrow>
     savePrizesToMemory data c =
       (let pd = cached @ map (\<lambda>(i, r). Rec (r\<lparr>id' := Some (i + 1)\<rparr>))
                            (enumerate (length cached) data)
        in (pd, c\<lparr>cache := (cache c)\<lparr>prizeData := Some pd\<rparr>\<rparr>))"
  by (simp add: savePrizesToMemory_def saveLoop_enumerate)

text \<open>
  C8. On a cached sequence that is unset the \<open>else\<close> branch stores \<open>[data]\<close>: the whole
  list as one nested element, no record appended on its own and no id assigned. This
  is the state of the ticket list after \<open>clearCachedData\<close>, and of the prize list from
  the start (\<open>prizeData: null\<close>).
\<close>

theorem saveToMemory_unset:
  "fst (saveTicketsToMemory [\<lparr>id' = None, code = Some (js ''abc-111''), body = ''a''\<rparr>,
                             \<lparr>id' = None, code = Some (js ''abc-222''), body = ''b''\<rparr>]
         (clearCachedData (\<lparr>cache = initialCache, scans = []\<rparr>
            :: (string ticketRow, string ticketRow) client))) =
     [Arr [\<lparr>id' = None, code = Some (js ''abc-111''), body = ''a''\<rparr>,
           \<lparr>id' = None, code = Some (js ''abc-222''), body = ''b''\<rparr>]] \<and>
   fst (savePrizesToMemory [\<lparr>id' = None, code = Some (js ''p1''), body = ''x''\<rparr>,
                            \<lparr>id' = None, code = Some (js ''p2''), body = ''y''\<rparr>]
         (\<lparr>cache = initialCache, scans = []\<rparr>
            :: (string ticketRow, string ticketRow) client)) =
     [Arr [\<lparr>id' = None, code = Some (js ''p1''), body = ''x''\<rparr>,
           \<lparr>id' = None, code = Some (js ''p2''), body = ''y''\<rparr>]]"
  by (simp add: saveTicketsToMemory_def savePrizesToMemory_def clearCachedData_def
        initialCache_def Let_def)

section \<open>Properties of the cloud functions\<close>

subsection \<open>The store\<close>

lemma map_of_setDoc: "map_of (setDoc k d coll) = (map_of coll)(k \<mapsto> d)"
  by (induction coll) auto

lemma docExists_setDoc: "docExists (setDoc k d coll) k' = (k' = k \<or> docExists coll k')"
  by (simp add: docExists_def map_of_setDoc)

lemma set_setDoc: "set (setDoc k d coll) \<subseteq> insert (k, d) (set coll)"
  by (induction coll) (auto split: if_splits)

subsection \<open>The default shop tag\<close>

lemma split_nonempty: "split sep s \<noteq> []"
  by (induction s) (auto split: list.splits)

lemma hd_split: "hd (split sep s) = takeWhile (\<lambda>c. c \<noteq> sep) s"
proof (induction s)
  case Nil
  show ?case by simp
next
  case (Cons c cs)
  then show ?case
    using split_nonempty [of sep cs] by (cases "split sep cs") auto
qed

lemma substring_take: "n \<le> length s \<Longrightarrow> substring s 0 n = take n s"
  by (simp add: substring_def)

text \<open>
  C5. For every e-mail and every case mapping \<open>lower\<close>, the default shop tag is \<open>lower\<close>
  of the prefix of the local part of the e-mail (the code units before the first
  \<open>@\<close>), the prefix of length \<open>min 5\<close> of the length of the local part; it is a function
  of the e-mail alone. The tag has the length of that prefix whenever lower-casing
  keeps the length of the prefix, and not in general: see the counterexample below.
\<close>

theorem defaultTag_spec:
  "defaultTag lower e =
     lower (take (min 5 (length (takeWhile (\<lambda>c. c \<noteq> 0x40) e))) (takeWhile (\<lambda>c. c \<noteq> 0x40) e)) \<and>
   (length (lower (take (min 5 (length (takeWhile (\<lambda>c. c \<noteq> 0x40) e)))
                     (takeWhile (\<lambda>c. c \<noteq> 0x40) e))) =
      length (take (min 5 (length (takeWhile (\<lambda>c. c \<noteq> 0x40) e))) (takeWhile (\<lambda>c. c \<noteq> 0x40) e)) \<longrightarrow>
      length (defaultTag lower e) = min 5 (length (takeWhile (\<lambda>c. c \<noteq> 0x40) e)))"
proof -
  let ?lp = "takeWhile (\<lambda>c. c \<noteq> 0x40) e"
  have "defaultTag lower e = lower (substring ?lp 0 (if 5 \<le> length ?lp then 5 else length ?lp))"
    by (simp add: defaultTag_def hd_split Let_def)
  also have "(if 5 \<le> length ?lp then 5 else length ?lp) = min 5 (length ?lp)"
    by simp
  also have "substring ?lp 0 (min 5 (length ?lp)) = take (min 5 (length ?lp)) ?lp"
    by (rule substring_take) simp
  finally have t: "defaultTag lower e = lower (take (min 5 (length ?lp)) ?lp)" .
  then show ?thesis
    by simp
qed

theorem defaultTag_spec_witness:
  "length (toLowerCase (take (min 5 (length (takeWhile (\<lambda>c. c \<noteq> 0x40) (js ''Alice@example.com''))))
                          (takeWhile (\<lambda>c. c \<noteq> 0x40) (js ''Alice@example.com'')))) =
     length (take (min 5 (length (takeWhile (\<lambda>c. c \<noteq> 0x40) (js ''Alice@example.com''))))
               (takeWhile (\<lambda>c. c \<noteq> 0x40) (js ''Alice@example.com''))) \<and>
   defaultTag toLowerCase (js ''Alice@example.com'') = js ''alice'' \<and>
   length (defaultTag toLowerCase (js ''Alice@example.com'')) = 5"
proof -
  let ?p = "take (min 5 (length (takeWhile (\<lambda>c. c \<noteq> 0x40) (js ''Alice@example.com''))))
              (takeWhile (\<lambda>c. c \<noteq> 0x40) (js ''Alice@example.com''))"
  have a: "toLowerCase ?p = js ''alice''"
    by code_simp
  have h: "length (toLowerCase ?p) = length ?p"
    by code_simp
  have m: "min 5 (length (takeWhile (\<lambda>c. c \<noteq> 0x40) (js ''Alice@example.com''))) = 5"
    by code_simp
  note t = defaultTag_spec [of toLowerCase "js ''Alice@example.com''"]
  from t have "defaultTag toLowerCase (js ''Alice@example.com'') = toLowerCase ?p"
    by (rule conjunct1)
  then have e: "defaultTag toLowerCase (js ''Alice@example.com'') = js ''alice''"
    by (simp only: a)
  from t [THEN conjunct2, THEN mp, OF h]
  have l: "length (defaultTag toLowerCase (js ''Alice@example.com'')) = 5"
    by (simp only: m)
  from h e l show ?thesis
    by (intro conjI)
qed

text \<open>
  The claim as the spec words it, a tag of length \<open>min 5\<close> of the length of the local
  part for every e-mail, fails where lower-casing lengthens the prefix: the local part
  of the e-mail below has 8 code units and starts with U+0130, its prefix of 5 code
  units lowers to 6, and the tag has length 6.
\<close>

theorem defaultTag_length_counterexample:
  "hd (split 0x40 (0x130 # js ''STANBUL@example.com'')) = 0x130 # js ''STANBUL'' \<and>
   min 5 (length (hd (split 0x40 (0x130 # js ''STANBUL@example.com'')))) = 5 \<and>
   defaultTag toLowerCase (0x130 # js ''STANBUL@example.com'') = [0x69, 0x307] @ js ''stan'' \<and>
   length (defaultTag toLowerCase (0x130 # js ''STANBUL@example.com'')) = 6 \<and>
   length (defaultTag toLowerCase (0x130 # js ''STANBUL@example.com'')) \<noteq>
     min 5 (length (hd (split 0x40 (0x130 # js ''STANBUL@example.com''))))"
  by code_simp

subsection \<open>\<open>userLoggedIn\<close>\<close>

lemma initUserAccount_existing:
  "accountExists u st \<Longrightarrow> initUserAccount lower ts u e st = (False, st)"
  by (simp add: initUserAccount_def)

lemma initUserAccount_new:
  "\<not> accountExists u st \<Longrightarrow>
     initUserAccount lower ts u e st =
       (True, st\<lparr>users := setDoc u \<lparr>user.createdAt = ts, shopTag = defaultTag lower e\<rparr> (users st)\<rparr>)"
  by (simp add: initUserAccount_def)

lemma accountExists_after:
  "accountExists u (snd (initUserAccount lower ts u e st))"
  by (simp add: initUserAccount_def accountExists_def docExists_setDoc)

lemma userLoggedIn_auth:
  "auth ctx = Some u \<Longrightarrow>
     userLoggedIn lower ts getUserEmail ctx st =
       (Inr (if accountExists u st then ''success'' else ''created''),
        snd (initUserAccount lower ts u (getUserEmail u) st))"
  by (simp add: userLoggedIn_def checkAuthentication_def initUserAccount_def Let_def)

text \<open>
  C6. For an authenticated caller \<open>u\<close> whose e-mail is \<open>getUserEmail u\<close>: when the user
  document exists the call writes nothing and reports \<open>success\<close>; otherwise it writes
  the user document with \<open>createdAt\<close> and the shop tag derived from the e-mail, changes
  nothing else, and reports \<open>created\<close>. A second call on the resulting store (at any
  time, whatever e-mail the provider then reports) writes nothing and reports
  \<open>success\<close>.
\<close>

theorem userLoggedIn_idempotent:
  assumes "auth ctx = Some u"
  shows "(accountExists u st \<longrightarrow>
            initUserAccount lower ts u (getUserEmail u) st = (False, st) \<and>
            userLoggedIn lower ts getUserEmail ctx st = (Inr ''success'', st)) \<and>
         (\<not> accountExists u st \<longrightarrow>
            (\<exists>st'. initUserAccount lower ts u (getUserEmail u) st = (True, st') \<and>
                   userLoggedIn lower ts getUserEmail ctx st = (Inr ''created'', st') \<and>
                   map_of (users st') u =
                     Some \<lparr>user.createdAt = ts, shopTag = defaultTag lower (getUserEmail u)\<rparr> \<and>
                   (\<forall>v. v \<noteq> u \<longrightarrow> map_of (users st') v = map_of (users st) v) \<and>
                   ticketInfo st' = ticketInfo st)) \<and>
         (let st' = snd (userLoggedIn lower ts getUserEmail ctx st)
          in userLoggedIn lower ts2 getUserEmail2 ctx st' = (Inr ''success'', st'))"
proof (intro conjI impI)
  assume ex: "accountExists u st"
  then show "initUserAccount lower ts u (getUserEmail u) st = (False, st)"
    by (rule initUserAccount_existing)
  with ex show "userLoggedIn lower ts getUserEmail ctx st = (Inr ''success'', st)"
    by (simp add: userLoggedIn_auth [OF assms])
next
  assume nex: "\<not> accountExists u st"
  let ?st' = "st\<lparr>users := setDoc u \<lparr>user.createdAt = ts,
                 shopTag = defaultTag lower (getUserEmail u)\<rparr> (users st)\<rparr>"
  have i: "initUserAccount lower ts u (getUserEmail u) st = (True, ?st')"
    using nex by (rule initUserAccount_new)
  with nex have "userLoggedIn lower ts getUserEmail ctx st = (Inr ''created'', ?st')"
    by (simp add: userLoggedIn_auth [OF assms])
  with i show "\<exists>st'. initUserAccount lower ts u (getUserEmail u) st = (True, st') \<and>
      userLoggedIn lower ts getUserEmail ctx st = (Inr ''created'', st') \<and>
      map_of (users st') u =
        Some \<lparr>user.createdAt = ts, shopTag = defaultTag lower (getUserEmail u)\<rparr> \<and>
      (\<forall>v. v \<noteq> u \<longrightarrow> map_of (users st') v = map_of (users st) v) \<and>
      ticketInfo st' = ticketInfo st"
    by (intro exI [of _ ?st']) (simp add: map_of_setDoc)
next
  let ?st' = "snd (userLoggedIn lower ts getUserEmail ctx st)"
  have "?st' = snd (initUserAccount lower ts u (getUserEmail u) st)"
    by (simp add: userLoggedIn_auth [OF assms])
  then have "accountExists u ?st'"
    by (simp add: accountExists_after)
  then have "userLoggedIn lower ts2 getUserEmail2 ctx ?st' = (Inr ''success'', ?st')"
    by (simp add: userLoggedIn_auth [OF assms] initUserAccount_existing)
  then show "let st' = ?st' in userLoggedIn lower ts2 getUserEmail2 ctx st' = (Inr ''success'', st')"
    by (simp add: Let_def)
qed

theorem userLoggedIn_idempotent_witness:
  "(let ctx = \<lparr>auth = Some (js ''u1'')\<rparr>;
        st0 = \<lparr>users = [], ticketInfo = []\<rparr> :: string firestore;
        st1 = \<lparr>users = [(js ''u1'', \<lparr>user.createdAt = 7, shopTag = js ''alice''\<rparr>)],
               ticketInfo = []\<rparr>
    in auth ctx = Some (js ''u1'') \<and> \<not> accountExists (js ''u1'') st0 \<and>
       accountExists (js ''u1'') st1 \<and>
       userLoggedIn asciiLower 7 (\<lambda>u. js ''Alice@example.com'') ctx st0 = (Inr ''created'', st1) \<and>
       userLoggedIn asciiLower 9 (\<lambda>u. js ''Alice@example.com'') ctx st1 = (Inr ''success'', st1))"
proof -
  let ?ctx = "\<lparr>auth = Some (js ''u1'')\<rparr>"
  let ?st0 = "\<lparr>users = [], ticketInfo = []\<rparr> :: string firestore"
  let ?st1 = "\<lparr>users = [(js ''u1'', \<lparr>user.createdAt = 7, shopTag = js ''alice''\<rparr>)],
               ticketInfo = []\<rparr> :: string firestore"
  let ?e = "\<lambda>u :: jsstring. js ''Alice@example.com''"
  have a: "auth ?ctx = Some (js ''u1'')"
    by simp
  have n0: "\<not> accountExists (js ''u1'') ?st0"
    by (simp add: accountExists_def docExists_def)
  have n1: "accountExists (js ''u1'') ?st1"
    by (simp add: accountExists_def docExists_def)
  have t: "defaultTag asciiLower (js ''Alice@example.com'') = js ''alice''"
    by code_simp
  from userLoggedIn_idempotent [OF a, of ?st1 asciiLower 9 ?e] n1
  have s: "userLoggedIn asciiLower 9 ?e ?ctx ?st1 = (Inr ''success'', ?st1)"
    by blast
  have c: "userLoggedIn asciiLower 7 ?e ?ctx ?st0 = (Inr ''created'', ?st1)"
    by (simp add: userLoggedIn_auth [OF a] initUserAccount_def n0 t)
  from a n0 n1 s c show ?thesis
    by (simp add: Let_def)
qed

subsection \<open>The validation of \<open>amount\<close>\<close>

lemma generateTickets_auth:
  "auth ctx = Some u \<Longrightarrow> checkAuthentication ctx = None"
  by (simp add: checkAuthentication_def)

text \<open>
  C4. For an authenticated caller and an amount that is a number (not NaN): outside
  \<open>1..10\<close> (below 1, above 10, or infinite) the call fails with \<open>out-of-range\<close> and the
  store is as before; within \<open>1..10\<close> the call does not fail with \<open>out-of-range\<close>.
  (An unauthenticated call fails earlier, with \<open>unauthenticated\<close>, and writes nothing
  either.)
\<close>

theorem generateTickets_amount_range:
  assumes "auth ctx = Some u" and "toNumber amount \<noteq> NaN"
  shows "(\<not> (\<exists>a. toNumber amount = Finite a \<and> 1 \<le> a \<and> a \<le> 10) \<longrightarrow>
            generateTickets ts samples ctx e m amount st = Some (Inl OutOfRange, st)) \<and>
         ((\<exists>a. toNumber amount = Finite a \<and> 1 \<le> a \<and> a \<le> 10) \<longrightarrow>
            (\<forall>st'. generateTickets ts samples ctx e m amount st \<noteq> Some (Inl OutOfRange, st')))"
proof (cases "toNumber amount")
  case NaN
  with assms(2) show ?thesis by simp
next
  case (Finite a)
  show ?thesis
  proof (cases "1 \<le> a \<and> a \<le> 10")
    case True
    then have "\<not> (js_lt (Finite 10) (toNumber amount) \<or> js_lt (toNumber amount) (Finite 1))"
      using Finite by auto
    then show ?thesis
      using Finite True
      by (auto simp: generateTickets_def generateTickets_auth [OF assms(1)] Let_def
            split: option.splits)
  next
    case False
    then show ?thesis
      using Finite
      by (auto simp: generateTickets_def generateTickets_auth [OF assms(1)])
  qed
next
  case PosInf
  then show ?thesis
    by (simp add: generateTickets_def generateTickets_auth [OF assms(1)])
next
  case NegInf
  then show ?thesis
    by (simp add: generateTickets_def generateTickets_auth [OF assms(1)])
qed

theorem generateTickets_amount_range_witness:
  "(let ctx = \<lparr>auth = Some (js ''u1'')\<rparr>;
        st = \<lparr>users = [(js ''u1'', \<lparr>user.createdAt = 7, shopTag = js ''alice''\<rparr>)],
              ticketInfo = []\<rparr> :: string firestore;
        run = (\<lambda>n. generateTickets 8 [(1, 2, 3)] ctx ''e'' ''m'' (Number (Finite n)) st)
    in auth ctx = Some (js ''u1'') \<and>
       run 0 = Some (Inl OutOfRange, st) \<and>
       run 11 = Some (Inl OutOfRange, st) \<and>
       run (- 3) = Some (Inl OutOfRange, st) \<and>
       run 1 \<noteq> Some (Inl OutOfRange, st))"
proof -
  let ?ctx = "\<lparr>auth = Some (js ''u1'')\<rparr>"
  let ?st = "\<lparr>users = [(js ''u1'', \<lparr>user.createdAt = 7, shopTag = js ''alice''\<rparr>)],
              ticketInfo = []\<rparr> :: string firestore"
  have a: "auth ?ctx = Some (js ''u1'')"
    by simp
  have n: "toNumber (Number (Finite x)) \<noteq> NaN" for x
    by simp
  note t = generateTickets_amount_range [OF a n, of _ 8 "[(1, 2, 3)]" "''e''" "''m''" ?st]
  from t [of 0] t [of 11] t [of "- 3"] t [of 1] a show ?thesis
    by (simp add: Let_def)
qed




subsection \<open>Ticket codes\<close>

lemma generateCode_Some:
  "generateCode tag tinfo samples = Some (c, rest) \<Longrightarrow>
     \<not> docExists tinfo c \<and>
     (\<exists>pre s. samples = pre @ s # rest \<and> c = buildCode tag (toUpperCase (toHex s)) \<and>
        (\<forall>x\<in>set pre. docExists tinfo (buildCode tag (toUpperCase (toHex x)))))"
proof (induction samples)
  case Nil
  then show ?case by simp
next
  case (Cons a samples)
  show ?case
  proof (cases "docExists tinfo (buildCode tag (toUpperCase (toHex a)))")
    case True
    with Cons.prems have "generateCode tag tinfo samples = Some (c, rest)"
      by (simp add: Let_def)
    from Cons.IH [OF this] obtain pre s where
      "\<not> docExists tinfo c" "samples = pre @ s # rest" "c = buildCode tag (toUpperCase (toHex s))"
      "\<forall>x\<in>set pre. docExists tinfo (buildCode tag (toUpperCase (toHex x)))"
      by blast
    with True show ?thesis
      by (intro conjI exI [of _ "a # pre"] exI [of _ s]) simp_all
  next
    case False
    with Cons.prems have "c = buildCode tag (toUpperCase (toHex a))" and "rest = samples"
      by (simp_all add: Let_def)
    with False show ?thesis
      by (intro conjI exI [of _ "[]"] exI [of _ a]) simp_all
  qed
qed

lemma generateCode_returns:
  "\<exists>s\<in>set samples. \<not> docExists tinfo (buildCode tag (toUpperCase (toHex s))) \<Longrightarrow>
     \<exists>c rest. generateCode tag tinfo samples = Some (c, rest)"
  by (induction samples) (auto simp: Let_def)

lemma upper_hexDigit:
  assumes "n < 16"
  shows "toUpperCase [hexDigit n] = [js ''0123456789ABCDEF'' ! n]"
proof -
  have m: "toUpperCase (js ''0123456789abcdef'') = js ''0123456789ABCDEF''"
    by (simp add: toUpperCase_def js_def)
  have l: "length (js ''0123456789abcdef'') = 16"
    by (simp add: js_def)
  have "toUpperCase [hexDigit n] = [toUpperCase (js ''0123456789abcdef'') ! n]"
    using assms l by (simp add: toUpperCase_def hexDigit_def)
  then show ?thesis
    by (simp only: m)
qed

lemma toUpperCase_append: "toUpperCase (xs @ ys) = toUpperCase xs @ toUpperCase ys"
  by (simp add: toUpperCase_def)

lemma upper_hexDigit_mem:
  assumes "n < 16"
  shows "list_all (\<lambda>x. x \<in> set (js ''0123456789ABCDEF'')) (toUpperCase [hexDigit n])"
proof -
  have "length (js ''0123456789ABCDEF'') = 16"
    by (simp add: js_def)
  with assms have "js ''0123456789ABCDEF'' ! n \<in> set (js ''0123456789ABCDEF'')"
    by (intro nth_mem) simp
  then show ?thesis
    by (simp only: upper_hexDigit [OF assms]) simp
qed

lemma suffix_form:
  "length (toUpperCase (toHex s)) = 6 \<and>
   list_all (\<lambda>x. x \<in> set (js ''0123456789ABCDEF'')) (toUpperCase (toHex s))"
proof -
  obtain b1 b2 b3 where s: "s = (b1, b2, b3)"
    by (cases s)
  have "unat b < 256" for b :: "8 word"
    using unsigned_less [of b, where ?'a = nat] by simp
  then have d: "unat b div 16 < 16" for b :: "8 word"
    using less_mult_imp_div_less [of "unat b" 16 16] by simp
  have r: "unat b mod 16 < 16" for b :: "8 word"
    by simp
  have "toUpperCase (toHex s) =
          toUpperCase [hexDigit (unat b1 div 16)] @ toUpperCase [hexDigit (unat b1 mod 16)] @
          toUpperCase [hexDigit (unat b2 div 16)] @ toUpperCase [hexDigit (unat b2 mod 16)] @
          toUpperCase [hexDigit (unat b3 div 16)] @ toUpperCase [hexDigit (unat b3 mod 16)]"
    by (simp add: toHex_def s toUpperCase_def)
  moreover have "length (toUpperCase (toHex s)) = 6"
    by (simp add: toHex_def s toUpperCase_def)
  ultimately show ?thesis
    using upper_hexDigit_mem [OF d [of b1]] upper_hexDigit_mem [OF r [of b1]]
      upper_hexDigit_mem [OF d [of b2]] upper_hexDigit_mem [OF r [of b2]]
      upper_hexDigit_mem [OF d [of b3]] upper_hexDigit_mem [OF r [of b3]]
    by (simp only: list_all_append)
qed

lemma matchesCode_buildCode: "matchesCode tag (buildCode tag (toUpperCase (toHex s)))"
proof -
  have "length (js ''-'') = 1"
    by (simp add: js_def)
  then show ?thesis
    using suffix_form [of s] by (simp add: matchesCode_def buildCode_def)
qed

subsection \<open>The issuing loop\<close>

lemma issueLoop_done:
  "\<not> js_lt (Finite (of_nat i)) amount \<Longrightarrow>
     issueLoop i amount tag td samples tickets tinfo = Some (tickets, tinfo)"
  by (simp add: issueLoop.simps [of i amount tag td samples tickets tinfo])

lemma issueLoop_step:
  assumes "js_lt (Finite (of_nat i)) amount"
    and "issueLoop i amount tag td samples tickets tinfo = Some (tickets', tinfo')"
  obtains c rest where "generateCode tag tinfo samples = Some (c, rest)"
    and "issueLoop (i + 1) amount tag td rest (setDoc c td tickets) (setDoc c td tinfo) =
           Some (tickets', tinfo')"
  using assms
  by (auto simp: issueLoop.simps [of i amount tag td samples tickets tinfo]
        split: option.splits)

text \<open>
  What the loop adds to the returned object and to the collection is the same map of
  new documents, none of whose keys was in the collection when the loop started.
\<close>

lemma issueLoop_fresh:
  "issueLoop i amount tag td samples tickets tinfo = Some (tickets', tinfo') \<Longrightarrow>
     \<exists>new. map_of tickets' = map_of tickets ++ new \<and> map_of tinfo' = map_of tinfo ++ new \<and>
           dom new \<inter> dom (map_of tinfo) = {}"
proof (induction i amount tag td samples tickets tinfo rule: issueLoop.induct)
  case (1 i amount tag td samples tickets tinfo)
  show ?case
  proof (cases "js_lt (Finite (of_nat i)) amount")
    case False
    with "1.prems" have "tickets' = tickets" and "tinfo' = tinfo"
      by (simp_all add: issueLoop_done)
    then show ?thesis
      by (intro exI [of _ Map.empty]) simp
  next
    case True
    from issueLoop_step [OF True "1.prems"] obtain c rest where
      g: "generateCode tag tinfo samples = Some (c, rest)" and
      l: "issueLoop (i + 1) amount tag td rest (setDoc c td tickets) (setDoc c td tinfo) =
            Some (tickets', tinfo')"
      by blast
    from "1.IH" [OF True g refl l] obtain new where
      n1: "map_of tickets' = map_of (setDoc c td tickets) ++ new" and
      n2: "map_of tinfo' = map_of (setDoc c td tinfo) ++ new" and
      n3: "dom new \<inter> dom (map_of (setDoc c td tinfo)) = {}"
      by blast
    from generateCode_Some [OF g] have f: "map_of tinfo c = None"
      by (simp add: docExists_def)
    have u: "mp(c \<mapsto> td) ++ new = mp ++ ([c \<mapsto> td] ++ new)" for mp
    proof -
      have "mp(c \<mapsto> td) = mp ++ [c \<mapsto> td]"
        by simp
      then show ?thesis
        by (simp only: map_add_assoc)
    qed
    have a1: "map_of tickets' = map_of tickets ++ ([c \<mapsto> td] ++ new)"
      using n1 [unfolded map_of_setDoc] u [of "map_of tickets"] by (rule trans)
    have a2: "map_of tinfo' = map_of tinfo ++ ([c \<mapsto> td] ++ new)"
      using n2 [unfolded map_of_setDoc] u [of "map_of tinfo"] by (rule trans)
    have a3: "dom ([c \<mapsto> td] ++ new) \<inter> dom (map_of tinfo) = {}"
      using n3 f by (auto simp: map_of_setDoc)
    from a1 a2 a3 show ?thesis
      by blast
  qed
qed

text \<open>
  Every document the loop adds to the returned object or to the collection is the
  ticket document of the batch, under a code of the pattern of the shop tag.
\<close>

lemma issueLoop_written:
  "issueLoop i amount tag td samples tickets tinfo = Some (tickets', tinfo') \<Longrightarrow>
     set tickets' \<subseteq> set tickets \<union> {(c, d). matchesCode tag c \<and> d = td} \<and>
     set tinfo' \<subseteq> set tinfo \<union> {(c, d). matchesCode tag c \<and> d = td}"
proof (induction i amount tag td samples tickets tinfo rule: issueLoop.induct)
  case (1 i amount tag td samples tickets tinfo)
  show ?case
  proof (cases "js_lt (Finite (of_nat i)) amount")
    case False
    with "1.prems" show ?thesis
      by (simp add: issueLoop_done)
  next
    case True
    from issueLoop_step [OF True "1.prems"] obtain c rest where
      g: "generateCode tag tinfo samples = Some (c, rest)" and
      l: "issueLoop (i + 1) amount tag td rest (setDoc c td tickets) (setDoc c td tinfo) =
            Some (tickets', tinfo')"
      by blast
    from generateCode_Some [OF g] have m: "matchesCode tag c"
      by (auto simp: matchesCode_buildCode)
    from "1.IH" [OF True g refl l] m
      set_setDoc [of c td tickets] set_setDoc [of c td tinfo]
    show ?thesis
      by auto
  qed
qed

lemma generateTickets_Inr:
  assumes "generateTickets ts samples ctx e m amount st = Some (Inr tickets, st')"
  obtains u userDoc tinfo where "auth ctx = Some u" and "map_of (users st) u = Some userDoc"
    and "issueLoop 0 (toNumber amount) (shopTag userDoc)
           \<lparr>ticket.createdAt = ts, email = e, memo = m, orderID = None, prizeID = None,
              redeemed = False, shipped = False\<rparr> samples [] (ticketInfo st) =
         Some (tickets, tinfo)"
    and "st' = st\<lparr>ticketInfo := tinfo\<rparr>"
proof -
  from assms have c: "checkAuthentication ctx = None"
    by (auto simp: generateTickets_def split: option.splits)
  then obtain u where u: "auth ctx = Some u"
    by (auto simp: checkAuthentication_def split: if_splits)
  from assms c have r: "\<not> (js_lt (Finite 10) (toNumber amount) \<or> js_lt (toNumber amount) (Finite 1))"
    by (auto simp: generateTickets_def split: if_splits)
  from assms c r u obtain userDoc where d: "map_of (users st) u = Some userDoc"
    by (cases "map_of (users st) u") (simp_all add: generateTickets_def)
  let ?td = "\<lparr>ticket.createdAt = ts, email = e, memo = m, orderID = None, prizeID = None,
              redeemed = False, shipped = False\<rparr>"
  from assms c r u d obtain tinfo where
    "issueLoop 0 (toNumber amount) (shopTag userDoc) ?td samples [] (ticketInfo st) =
       Some (tickets, tinfo)" and "st' = st\<lparr>ticketInfo := tinfo\<rparr>"
    by (cases "issueLoop 0 (toNumber amount) (shopTag userDoc) ?td samples [] (ticketInfo st)")
       (auto simp: generateTickets_def Let_def)
  with u d that show thesis
    by blast
qed

text \<open>
  C2. The code generator returns a code only after an existence check on it that found
  no document: every sample drawn before the returned one gave a code that was
  present, and the returned one was absent. For the whole call: no code of the
  returned mapping was in \<open>ticket-info\<close> when the call started, and the documents
  written are those of the returned mapping, under their codes.
\<close>

theorem generateTickets_fresh_codes:
  "(generateCode tag tinfo samples = Some (c, rest) \<longrightarrow>
      \<not> docExists tinfo c \<and>
      (\<exists>pre s. samples = pre @ s # rest \<and> c = buildCode tag (toUpperCase (toHex s)) \<and>
         (\<forall>x\<in>set pre. docExists tinfo (buildCode tag (toUpperCase (toHex x)))))) \<and>
   (generateTickets ts samples' ctx e m amount st = Some (Inr tickets, st') \<longrightarrow>
      (\<forall>k. docExists tickets k \<longrightarrow> \<not> docExists (ticketInfo st) k) \<and>
      map_of (ticketInfo st') = map_of (ticketInfo st) ++ map_of tickets \<and>
      users st' = users st)"
proof (intro conjI impI)
  assume "generateCode tag tinfo samples = Some (c, rest)"
  note r = generateCode_Some [OF this]
  from r show "\<not> docExists tinfo c"
    by (rule conjunct1)
  from r show "\<exists>pre s. samples = pre @ s # rest \<and> c = buildCode tag (toUpperCase (toHex s)) \<and>
           (\<forall>x\<in>set pre. docExists tinfo (buildCode tag (toUpperCase (toHex x))))"
    by (rule conjunct2)
next
  assume g: "generateTickets ts samples' ctx e m amount st = Some (Inr tickets, st')"
  from g obtain u userDoc tinfo' where
    "auth ctx = Some u" and "map_of (users st) u = Some userDoc" and
    l: "issueLoop 0 (toNumber amount) (shopTag userDoc)
          \<lparr>ticket.createdAt = ts, email = e, memo = m, orderID = None, prizeID = None,
             redeemed = False, shipped = False\<rparr> samples' [] (ticketInfo st) =
        Some (tickets, tinfo')" and
    s: "st' = st\<lparr>ticketInfo := tinfo'\<rparr>"
    by (rule generateTickets_Inr)
  from issueLoop_fresh [OF l] obtain new where
    n1: "map_of tickets = map_of [] ++ new" and
    n2: "map_of tinfo' = map_of (ticketInfo st) ++ new" and
    n3: "dom new \<inter> dom (map_of (ticketInfo st)) = {}"
    by (elim exE conjE)
  from n1 have n: "new = map_of tickets"
    by simp
  show "\<forall>k. docExists tickets k \<longrightarrow> \<not> docExists (ticketInfo st) k"
  proof (intro allI impI)
    fix k
    assume "docExists tickets k"
    then have "k \<in> dom new"
      by (simp add: n docExists_def dom_def)
    with n3 have "k \<notin> dom (map_of (ticketInfo st))"
      by blast
    then show "\<not> docExists (ticketInfo st) k"
      by (simp add: docExists_def dom_def)
  qed
  from n2 s show "map_of (ticketInfo st') = map_of (ticketInfo st) ++ map_of tickets"
    by (simp add: n)
  from s show "users st' = users st"
    by simp
qed

theorem generateTickets_fresh_codes_witness:
  "(let ctx = \<lparr>auth = Some (js ''u1'')\<rparr>;
        td = \<lparr>ticket.createdAt = 8, email = ''e'', memo = ''m'', orderID = None,
               prizeID = None, redeemed = False, shipped = False\<rparr>;
        us = [(js ''u1'', \<lparr>user.createdAt = 7, shopTag = js ''alice''\<rparr>)];
        st = \<lparr>users = us, ticketInfo = [(js ''alice-010203'', td)]\<rparr>;
        st' = \<lparr>users = us,
                ticketInfo = [(js ''alice-010203'', td), (js ''alice-040506'', td)]\<rparr>
    in generateCode (js ''alice'') (ticketInfo st) [(1, 2, 3), (4, 5, 6)] =
         Some (js ''alice-040506'', []) \<and>
       generateTickets 8 [(1, 2, 3), (4, 5, 6)] ctx ''e'' ''m'' (Number (Finite 1)) st =
         Some (Inr [(js ''alice-040506'', td)], st') \<and>
       docExists (ticketInfo st) (js ''alice-010203'') \<and>
       \<not> docExists (ticketInfo st) (js ''alice-040506''))"
proof -
  let ?ctx = "\<lparr>auth = Some (js ''u1'')\<rparr>"
  let ?td = "\<lparr>ticket.createdAt = 8, email = ''e'', memo = ''m'', orderID = None,
               prizeID = None, redeemed = False, shipped = False\<rparr>"
  let ?us = "[(js ''u1'', \<lparr>user.createdAt = 7, shopTag = js ''alice''\<rparr>)]"
  let ?st = "\<lparr>users = ?us, ticketInfo = [(js ''alice-010203'', ?td)]\<rparr>"
  let ?st' = "\<lparr>users = ?us,
                ticketInfo = [(js ''alice-010203'', ?td), (js ''alice-040506'', ?td)]\<rparr>"
  have g: "generateCode (js ''alice'') (ticketInfo ?st) [(1, 2, 3), (4, 5, 6)] =
             Some (js ''alice-040506'', [])"
    by code_simp
  have t: "generateTickets 8 [(1, 2, 3), (4, 5, 6)] ?ctx ''e'' ''m'' (Number (Finite 1)) ?st =
             Some (Inr [(js ''alice-040506'', ?td)], ?st')"
    by code_simp
  have p: "docExists (ticketInfo ?st) (js ''alice-010203'')"
    by (simp add: docExists_def)
  have k: "docExists [(js ''alice-040506'', ?td)] (js ''alice-040506'')"
    by (simp add: docExists_def)
  note th = generateTickets_fresh_codes [of "js ''alice''" "ticketInfo ?st"
      "[(1, 2, 3), (4, 5, 6)]" "js ''alice-040506''" "[]" 8 "[(1, 2, 3), (4, 5, 6)]" ?ctx
      "''e''" "''m''" "Number (Finite 1)" ?st "[(js ''alice-040506'', ?td)]" ?st']
  note th [THEN conjunct2, THEN mp, OF t, THEN conjunct1, THEN spec, THEN mp, OF k]
  with g t p show ?thesis
    by (simp only: Let_def simp_thms)
qed

text \<open>
  C7. When \<open>generateTickets\<close> returns a mapping, the caller is authenticated and has a
  user document; every entry of the mapping and every document the call has added to
  \<open>ticket-info\<close> has a code of the pattern \<open>^<shopTag>-[0-9A-F]{6}$\<close> for the shop tag
  of that user document, and is the ticket document of the batch: \<open>redeemed\<close> and
  \<open>shipped\<close> false, \<open>orderID\<close> and \<open>prizeID\<close> null, with the timestamp, e-mail and memo
  of the call.
\<close>

theorem generateTickets_ticket_form:
  assumes "generateTickets ts samples ctx e m amount st = Some (Inr tickets, st')"
  shows "\<exists>u userDoc. auth ctx = Some u \<and> map_of (users st) u = Some userDoc \<and>
           (\<forall>(c, d) \<in> set tickets \<union> (set (ticketInfo st') - set (ticketInfo st)).
              matchesCode (shopTag userDoc) c \<and>
              \<not> redeemed d \<and> \<not> shipped d \<and> orderID d = None \<and> prizeID d = None \<and>
              ticket.createdAt d = ts \<and> email d = e \<and> memo d = m)"
proof -
  let ?td = "\<lparr>ticket.createdAt = ts, email = e, memo = m, orderID = None, prizeID = None,
              redeemed = False, shipped = False\<rparr>"
  from assms obtain u userDoc tinfo' where
    a: "auth ctx = Some u" and d: "map_of (users st) u = Some userDoc" and
    l: "issueLoop 0 (toNumber amount) (shopTag userDoc) ?td samples [] (ticketInfo st) =
          Some (tickets, tinfo')" and
    s: "st' = st\<lparr>ticketInfo := tinfo'\<rparr>"
    by (rule generateTickets_Inr)
  from issueLoop_written [OF l] have
    w1: "set tickets \<subseteq> {(c, d). matchesCode (shopTag userDoc) c \<and> d = ?td}" and
    w2: "set tinfo' \<subseteq> set (ticketInfo st) \<union> {(c, d). matchesCode (shopTag userDoc) c \<and> d = ?td}"
    by simp_all
  have "matchesCode (shopTag userDoc) c \<and> d = ?td"
    if "(c, d) \<in> set tickets \<union> (set (ticketInfo st') - set (ticketInfo st))" for c d
    using that w1 w2 s by auto
  then have "\<forall>(c, d) \<in> set tickets \<union> (set (ticketInfo st') - set (ticketInfo st)).
              matchesCode (shopTag userDoc) c \<and>
              \<not> redeemed d \<and> \<not> shipped d \<and> orderID d = None \<and> prizeID d = None \<and>
              ticket.createdAt d = ts \<and> email d = e \<and> memo d = m"
    by fastforce
  with a d show ?thesis
    by (intro exI [of _ u] exI [of _ userDoc] conjI)
qed

theorem generateTickets_ticket_form_witness:
  "(let ctx = \<lparr>auth = Some (js ''u1'')\<rparr>;
        td = \<lparr>ticket.createdAt = 8, email = ''e'', memo = ''m'', orderID = None,
               prizeID = None, redeemed = False, shipped = False\<rparr>;
        us = [(js ''u1'', \<lparr>user.createdAt = 7, shopTag = js ''alice''\<rparr>)];
        tickets = [(js ''alice-010203'', td), (js ''alice-040506'', td),
                   (js ''alice-ABCDEF'', td)]
    in generateTickets 8 [(1, 2, 3), (1, 2, 3), (4, 5, 6), (171, 205, 239)] ctx ''e'' ''m''
         (Number (Finite 3)) \<lparr>users = us, ticketInfo = []\<rparr> =
         Some (Inr tickets, \<lparr>users = us, ticketInfo = tickets\<rparr>) \<and>
       (\<forall>(c, d) \<in> set tickets. matchesCode (js ''alice'') c \<and> \<not> redeemed d \<and> \<not> shipped d))"
proof -
  let ?ctx = "\<lparr>auth = Some (js ''u1'')\<rparr>"
  let ?td = "\<lparr>ticket.createdAt = 8, email = ''e'', memo = ''m'', orderID = None,
               prizeID = None, redeemed = False, shipped = False\<rparr>"
  let ?us = "[(js ''u1'', \<lparr>user.createdAt = 7, shopTag = js ''alice''\<rparr>)]"
  let ?tickets = "[(js ''alice-010203'', ?td), (js ''alice-040506'', ?td),
                   (js ''alice-ABCDEF'', ?td)]"
  have t: "generateTickets 8 [(1, 2, 3), (1, 2, 3), (4, 5, 6), (171, 205, 239)] ?ctx ''e'' ''m''
         (Number (Finite 3)) \<lparr>users = ?us, ticketInfo = []\<rparr> =
         Some (Inr ?tickets, \<lparr>users = ?us, ticketInfo = ?tickets\<rparr>)"
    by code_simp
  from generateTickets_ticket_form [OF t]
  have "\<forall>(c, d) \<in> set ?tickets. matchesCode (js ''alice'') c \<and> \<not> redeemed d \<and> \<not> shipped d"
    by auto
  with t show ?thesis
    by (simp only: Let_def simp_thms)
qed

end
